theory Spec2Isabelle
  imports Main
begin

section \<open>Package simple: a strict wrapper around Go's io.Reader\<close>

text \<open>
  The development embeds \<^verbatim>\<open>reader.go\<close> (the type \<^verbatim>\<open>Reader\<close> with its methods
  \<^verbatim>\<open>Read\<close> and \<^verbatim>\<open>Err\<close>, the constructor \<^verbatim>\<open>NewReader\<close> and the helper function
  \<^verbatim>\<open>Read\<close>) and the test double \<^verbatim>\<open>basic\<close> of the example file.
\<close>

subsection \<open>Byte slices\<close>

text \<open>
  A Go \<^verbatim>\<open>[]byte\<close> value is either \<^verbatim>\<open>nil\<close> or a window on a backing array. Only the
  part of the array from the start of the window up to the capacity can be reached
  through the slice, so a slice that is not nil is modelled by two byte lists: the
  \<^verbatim>\<open>len(p)\<close> visible bytes, and the \<^verbatim>\<open>cap(p) - len(p)\<close> bytes behind them. A slice
  that is not nil may be empty and may have capacity 0; it is still different from nil.
\<close>

type_synonym byte = char

datatype slice = NilSlice | Slice "byte list" "byte list"

fun len :: "slice \<Rightarrow> nat" where
  "len NilSlice = 0"
| "len (Slice v sp) = length v"

fun cap :: "slice \<Rightarrow> nat" where
  "cap NilSlice = 0"
| "cap (Slice v sp) = length v + length sp"

text \<open>All bytes reachable through the slice: \<^verbatim>\<open>p[:cap(p)]\<close> read as a list.\<close>

fun backing :: "slice \<Rightarrow> byte list" where
  "backing NilSlice = []"
| "backing (Slice v sp) = v @ sp"

text \<open>The visible bytes \<^verbatim>\<open>p[0], ..., p[len(p)-1]\<close>.\<close>

fun bytes :: "slice \<Rightarrow> byte list" where
  "bytes NilSlice = []"
| "bytes (Slice v sp) = v"

text \<open>
  What can go wrong at run time. \<^verbatim>\<open>NewReader\<close> panics with a message; a slice expression
  out of range and a method call on a nil interface are run-time panics of Go; a
  source's own \<^verbatim>\<open>Read\<close> may panic with anything.
\<close>

datatype panic = PanicMsg string | SliceBoundsOutOfRange | NilDereference | SourcePanic string

text \<open>
  The simple slice expression \<^verbatim>\<open>p[:n]\<close>. Go requires \<^verbatim>\<open>0 <= n <= cap(p)\<close> and panics
  otherwise; slicing a nil slice (only \<^verbatim>\<open>n = 0\<close> is in range) gives a nil slice.
\<close>

fun slice_to :: "slice \<Rightarrow> int \<Rightarrow> panic + slice" where
  "slice_to NilSlice n = (if n = 0 then Inr NilSlice else Inl SliceBoundsOutOfRange)"
| "slice_to (Slice v sp) n =
     (if 0 \<le> n \<and> n \<le> int (length (v @ sp))
      then Inr (Slice (take (nat n) (v @ sp)) (drop (nat n) (v @ sp)))
      else Inl SliceBoundsOutOfRange)"

text \<open>
  A callee that receives a slice cannot change the caller's slice header, only the bytes
  of the backing array. A call therefore hands back the new contents of the reachable
  part of the array, and \<open>written p m\<close> is the caller's slice afterwards: the same
  header (nil or not, same length, same capacity) over the new bytes. Contents that are
  too short leave the remaining old bytes in place, contents that are too long are cut.
\<close>

fun written :: "slice \<Rightarrow> byte list \<Rightarrow> slice" where
  "written NilSlice m = NilSlice"
| "written (Slice v sp) m =
     (let a = take (length (v @ sp)) m @ drop (length m) (v @ sp)
      in Slice (take (length v) a) (drop (length v) a))"

text \<open>
  The built-in \<^verbatim>\<open>copy(p, b)\<close>: copies \<^verbatim>\<open>min(len(p), len(b))\<close> bytes to the front of
  \<^verbatim>\<open>p\<close> and returns that number, together with the new contents behind \<^verbatim>\<open>p\<close>.
\<close>

definition copy :: "slice \<Rightarrow> byte list \<Rightarrow> nat \<times> byte list" where
  "copy p b = (let k = min (len p) (length b) in (k, take k b @ drop k (backing p)))"

subsection \<open>Errors and the io.Reader interface\<close>

text \<open>
  A value of Go's \<^verbatim>\<open>error\<close> interface is \<open>'e option\<close>, with \<open>None\<close> for \<^verbatim>\<open>nil\<close>. The
  two errors of package \<^verbatim>\<open>io\<close> that the test double returns:
\<close>

datatype io_error = EOF | ErrUnexpectedEOF

text \<open>
  An implementation of \<^verbatim>\<open>io.Reader\<close> with state \<open>'s\<close>: \<^verbatim>\<open>Read(p []byte) (n int, err error)\<close>.
  A call either panics or returns the pair \<open>(n, err)\<close>, the new contents behind \<^verbatim>\<open>p\<close>
  and the new state of the implementation. Nothing in the type bounds \<open>n\<close> by
  \<^verbatim>\<open>len(p)\<close>: that is the documented contract of \<^verbatim>\<open>io.Reader\<close>, not a property of the
  interface.
\<close>

type_synonym ('s, 'e) io_Reader =
  "'s \<Rightarrow> slice \<Rightarrow> panic + ((int \<times> 'e option) \<times> byte list \<times> 's)"

subsection \<open>The wrapper: type Reader\<close>

text \<open>
  \<^verbatim>\<open>type Reader struct { err error; r io.Reader }\<close>. The field \<open>r\<close> is \<open>None\<close> for a
  nil interface (the zero value \<^verbatim>\<open>Reader{}\<close>), and holds the state of the wrapped
  implementation otherwise.
\<close>

record ('s, 'e) Reader =
  err :: "'e option"
  r :: "'s option"

definition NewReader :: "'s option \<Rightarrow> panic + ('s, 'e) Reader" where
  "NewReader src =
     (if src = None then Inl (PanicMsg ''cannot wrap nil io.Reader'')
      else Inr \<lparr>err = None, r = src\<rparr>)"

text \<open>\<^verbatim>\<open>err, r.err = r.err, nil; return err\<close>\<close>

definition Reader_Err :: "('s, 'e) Reader \<Rightarrow> 'e option \<times> ('s, 'e) Reader" where
  "Reader_Err rd = (err rd, rd\<lparr>err := None\<rparr>)"

text \<open>
  The method \<^verbatim>\<open>(*Reader).Read\<close>, given the \<^verbatim>\<open>Read\<close> of the wrapped implementation. The
  call \<^verbatim>\<open>r.r.Read(p)\<close> on a nil interface panics; a panic of the wrapped \<^verbatim>\<open>Read\<close> passes
  through.
\<close>

definition Reader_Read :: "('s, 'e) io_Reader \<Rightarrow> (('s, 'e) Reader, 'e) io_Reader" where
  "Reader_Read src rd p =
     (if err rd \<noteq> None then
        (let (e, rd') = Reader_Err rd in Inr ((0, e), backing p, rd'))
      else
        (case r rd of
           None \<Rightarrow> Inl NilDereference
         | Some s \<Rightarrow>
             (case src s p of
                Inl x \<Rightarrow> Inl x
              | Inr ((n, e), m, s') \<Rightarrow>
                  if n \<noteq> 0 \<and> e \<noteq> None
                  then Inr ((n, None), m, rd\<lparr>err := e, r := Some s'\<rparr>)
                  else Inr ((n, e), m, rd\<lparr>r := Some s'\<rparr>))))"

subsection \<open>The helper function Read\<close>

text \<open>
  \<^verbatim>\<open>p = p[:cap(p)]; n, err := r.Read(p); if p != nil { p = p[:n] }; return p, err\<close>.
  The result is the slice, the error and the new state of the implementation.
\<close>

definition Read :: "('s, 'e) io_Reader \<Rightarrow> 's \<Rightarrow> slice \<Rightarrow> panic + ((slice \<times> 'e option) \<times> 's)" where
  "Read src s p =
     (case slice_to p (int (cap p)) of
        Inl x \<Rightarrow> Inl x
      | Inr p1 \<Rightarrow>
          (case src s p1 of
             Inl x \<Rightarrow> Inl x
           | Inr ((n, e), m, s') \<Rightarrow>
               (let p2 = written p1 m in
                if p2 \<noteq> NilSlice then
                  (case slice_to p2 n of
                     Inl x \<Rightarrow> Inl x
                   | Inr p3 \<Rightarrow> Inr ((p3, e), s'))
                else Inr ((p2, e), s'))))"

subsection \<open>The test double: type basic\<close>

text \<open>
  \<^verbatim>\<open>type basic []byte\<close>, a byte slice that consumes itself. The method has a pointer
  receiver, and the receiver may be nil: \<open>None\<close> is the nil pointer, \<open>Some b\<close> a pointer
  to the bytes \<open>b\<close> still to be read. Of the slice \<^verbatim>\<open>*b\<close> the method uses the length and
  the visible bytes only, and it only ever slices it forward, so the bytes are all of
  its state. The destination \<^verbatim>\<open>p\<close> is taken not to overlap the memory of \<^verbatim>\<open>*b\<close>.
\<close>

type_synonym basic = "byte list"

definition NewBasic :: "string \<Rightarrow> basic" where
  "NewBasic s = s"

definition basic_Read :: "(basic option, io_error) io_Reader" where
  "basic_Read bp p =
     (case bp of
        None \<Rightarrow> Inr ((0, Some ErrUnexpectedEOF), backing p, None)
      | Some b \<Rightarrow>
          if length b = 0 then Inr ((0, Some EOF), backing p, Some b)
          else if len p = 0 then Inr ((0, None), backing p, Some b)
          else
            (let (n, m) = copy p b in
             if len p \<le> length b
             then Inr ((int n, None), m, Some (drop (len p) b))
             else Inr ((int n, Some EOF), m, Some (take 0 b))))"

subsection \<open>A caller reading in a loop\<close>

text \<open>\<^verbatim>\<open>make([]byte, n)\<close>: a fresh slice of \<open>n\<close> zero bytes, with capacity \<open>n\<close>.\<close>

definition make :: "nat \<Rightarrow> slice" where
  "make n = Slice (replicate n (CHR 0x00)) []"

text \<open>
  The first \<open>k\<close> rounds of the read loops of the examples,
  \<^verbatim>\<open>for { n, err := r.Read(p); ... p[:n] ... }\<close>: every round calls \<^verbatim>\<open>Read\<close> with the same
  slice \<^verbatim>\<open>p\<close>, over the bytes the round before left there, and notes \<open>n\<close>, the bytes of
  \<^verbatim>\<open>p[:n]\<close> and the error. A panic ends the run.
\<close>

fun reads :: "('s, 'e) io_Reader \<Rightarrow> 's \<Rightarrow> slice \<Rightarrow> nat \<Rightarrow> (int \<times> byte list \<times> 'e option) list" where
  "reads src s p 0 = []"
| "reads src s p (Suc k) =
     (case src s p of
        Inl x \<Rightarrow> []
      | Inr ((n, e), m, s') \<Rightarrow>
          (case slice_to (written p m) n of
             Inl x \<Rightarrow> []
           | Inr q \<Rightarrow> (n, bytes q, e) # reads src s' (written p m) k))"

subsection \<open>Sequences of calls on a wrapper\<close>

text \<open>
  A caller's calls on one \<^verbatim>\<open>*Reader\<close>, in order: \<^verbatim>\<open>Read\<close> with some slice, or \<^verbatim>\<open>Err\<close>.
  What the caller gets back from a call: for \<^verbatim>\<open>Read\<close> the count, the error and its
  slice over the bytes now behind it; for \<^verbatim>\<open>Err\<close> the error.
\<close>

datatype call = CallRead slice | CallErr

datatype 'e outcome = ReadOut int "'e option" slice | ErrOut "'e option"

text \<open>
  The calls are made one after the other on the state the call before left. A panic
  ends the run: the caller has the outcomes of the calls before it, and the state is the
  one the panicking call found.
\<close>

fun run :: "('s, 'e) io_Reader \<Rightarrow> ('s, 'e) Reader \<Rightarrow> call list \<Rightarrow> 'e outcome list \<times> ('s, 'e) Reader" where
  "run src rd [] = ([], rd)"
| "run src rd (CallErr # cs) =
     (case Reader_Err rd of
        (e, rd') \<Rightarrow> (case run src rd' cs of (outs, rd'') \<Rightarrow> (ErrOut e # outs, rd'')))"
| "run src rd (CallRead p # cs) =
     (case Reader_Read src rd p of
        Inl x \<Rightarrow> ([], rd)
      | Inr ((n, e), m, rd') \<Rightarrow>
          (case run src rd' cs of (outs, rd'') \<Rightarrow> (ReadOut n e (written p m) # outs, rd'')))"

text \<open>The strict contract, for one outcome: data and an error never come together.\<close>

fun strict :: "'e outcome \<Rightarrow> bool" where
  "strict (ReadOut n e q) = (0 < n \<longrightarrow> e = None)"
| "strict (ErrOut e) = True"

text \<open>The bytes a call hands to the caller, \<^verbatim>\<open>p[:n]\<close>, and the error it hands over.\<close>

fun out_bytes :: "'e outcome \<Rightarrow> byte list" where
  "out_bytes (ReadOut n e q) = take (nat n) (backing q)"
| "out_bytes (ErrOut e) = []"

fun out_error :: "'e outcome \<Rightarrow> 'e option" where
  "out_error (ReadOut n e q) = e"
| "out_error (ErrOut e) = e"

fun pending :: "'e option \<Rightarrow> 'e list" where
  "pending None = []"
| "pending (Some x) = [x]"

text \<open>All errors handed to the caller, in the order of the calls.\<close>

definition delivered :: "'e outcome list \<Rightarrow> 'e list" where
  "delivered outs = concat (map (pending \<circ> out_error) outs)"

subsection \<open>What the wrapped source is asked and what it answers\<close>

text \<open>
  To speak about the calls that reach the wrapped source, the source keeps a journal:
  \<open>logged src\<close> behaves as \<open>src\<close> does, and adds to its state one entry for every call
  that returns, with the slice it was given, the count and the error it returned, and
  the slice over the bytes it left. The wrapper cannot see the journal.
\<close>

type_synonym 'e entry = "slice \<times> int \<times> 'e option \<times> slice"

definition logged :: "('s, 'e) io_Reader \<Rightarrow> ('s \<times> 'e entry list, 'e) io_Reader" where
  "logged src sl p =
     (case sl of (s, lg) \<Rightarrow>
        (case src s p of
           Inl x \<Rightarrow> Inl x
         | Inr ((n, e), m, s') \<Rightarrow> Inr ((n, e), m, (s', lg @ [(p, n, e, written p m)]))))"

definition log_of :: "('s \<times> 'e entry list, 'e) Reader \<Rightarrow> 'e entry list" where
  "log_of rd = (case r rd of None \<Rightarrow> [] | Some (s, lg) \<Rightarrow> lg)"

text \<open>The wrapper over the source without its journal.\<close>

definition unlog :: "('s \<times> 'e entry list, 'e) Reader \<Rightarrow> ('s, 'e) Reader" where
  "unlog rd = \<lparr>err = err rd, r = map_option fst (r rd)\<rparr>"

text \<open>
  Reading the source directly, with no wrapper: \<^verbatim>\<open>Read\<close> is called with each slice in
  turn, and the answers are noted in the form of journal entries.
\<close>

fun direct :: "('s, 'e) io_Reader \<Rightarrow> 's \<Rightarrow> slice list \<Rightarrow> 'e entry list \<times> 's" where
  "direct src s [] = ([], s)"
| "direct src s (p # ps) =
     (case src s p of
        Inl x \<Rightarrow> ([], s)
      | Inr ((n, e), m, s') \<Rightarrow>
          (case direct src s' ps of (es, s'') \<Rightarrow> ((p, n, e, written p m) # es, s'')))"

fun entry_bytes :: "'e entry \<Rightarrow> byte list" where
  "entry_bytes (p, n, e, q) = take (nat n) (backing q)"

fun entry_error :: "'e entry \<Rightarrow> 'e option" where
  "entry_error (p, n, e, q) = e"

text \<open>All errors the source returned, in the order of its calls.\<close>

definition returned :: "'e entry list \<Rightarrow> 'e list" where
  "returned lg = concat (map (pending \<circ> entry_error) lg)"

subsection \<open>The calls the source is to see, after the specification\<close>

text \<open>
  This function is written from the words of the specification, not from the code. It
  says which of the caller's slices the source must be read with, and in which order:
  a \<^verbatim>\<open>Read\<close> that finds an error pending is answered from the slot and takes the error
  away; \<^verbatim>\<open>Err\<close> takes it away too; every other \<^verbatim>\<open>Read\<close> goes to the source with the
  caller's slice, and leaves an error pending exactly when the source returns data
  (\<open>n \<noteq> 0\<close>) together with an error. \<open>pend\<close> says whether an error is pending, \<open>s\<close> is
  the state of the source. A panic of the source ends the list with the slice of that
  call.
\<close>

fun spec_forwarded :: "('s, 'e) io_Reader \<Rightarrow> 's \<Rightarrow> bool \<Rightarrow> call list \<Rightarrow> slice list" where
  "spec_forwarded src s pend [] = []"
| "spec_forwarded src s pend (CallErr # cs) = spec_forwarded src s False cs"
| "spec_forwarded src s pend (CallRead p # cs) =
     (if pend then spec_forwarded src s False cs
      else
        (case src s p of
           Inl x \<Rightarrow> [p]
         | Inr ((n, e), m, s') \<Rightarrow> p # spec_forwarded src s' (n \<noteq> 0 \<and> e \<noteq> None) cs))"

subsection \<open>A source that breaks the contract of io.Reader\<close>

text \<open>
  An implementation of \<^verbatim>\<open>io.Reader\<close> that writes nothing and reports one byte read,
  whatever slice it is given: \<^verbatim>\<open>func (x) Read(p []byte) (int, error) { return 1, nil }\<close>.
  The compiler accepts it; for an empty \<^verbatim>\<open>p\<close> it breaks the documented bound
  \<^verbatim>\<open>0 <= n <= len(p)\<close>.
\<close>

definition over_reporting :: "(unit, io_error) io_Reader" where
  "over_reporting s p = Inr ((1, None), backing p, s)"

subsection \<open>Basic facts\<close>

lemma len_written: "len (written p m) = len p"
  by (cases p) (auto simp: Let_def)

lemma cap_written: "cap (written p m) = cap p"
  by (cases p) (auto simp: Let_def)

lemma written_Nil_iff: "written p m = NilSlice \<longleftrightarrow> p = NilSlice"
  by (cases p) (auto simp: Let_def)

lemma written_backing: "written p (backing p) = p"
  by (cases p) (auto simp: Let_def)

section \<open>The test double\<close>

text \<open>
  C10. A call of \<^verbatim>\<open>Read\<close> through a nil \<^verbatim>\<open>*basic\<close> receiver does not panic and does
  not report \<^verbatim>\<open>io.EOF\<close>: for every destination it returns \<^verbatim>\<open>(0, io.ErrUnexpectedEOF)\<close>,
  writes nothing and leaves the receiver nil.
\<close>

theorem basic_Read_nil_receiver:
  "basic_Read None p = Inr ((0, Some ErrUnexpectedEOF), backing p, None)"
  by (simp add: basic_Read_def)

text \<open>
  C8, as stated, fails: the test for an exhausted sequence comes before the test for an
  empty destination, so an exhausted \<^verbatim>\<open>basic\<close> answers an empty destination with
  \<^verbatim>\<open>(0, io.EOF)\<close>, not with \<^verbatim>\<open>(0, nil)\<close>.
\<close>

theorem basic_Read_empty_dest_counterexample:
  "len (Slice [] []) = 0 \<and>
   basic_Read (Some (NewBasic [])) (Slice [] []) = Inr ((0, Some EOF), [], Some (NewBasic [])) \<and>
   basic_Read (Some (NewBasic [])) (Slice [] []) \<noteq> Inr ((0, None), [], Some (NewBasic []))"
  by (simp add: basic_Read_def NewBasic_def)

text \<open>
  C8, amended. For every state of \<^verbatim>\<open>basic\<close> that still holds bytes, a read with an
  empty destination (nil, or of length 0 with any capacity) returns \<^verbatim>\<open>(0, nil)\<close>,
  writes nothing and leaves the stored bytes as they are. Once the sequence is empty the
  same call returns \<^verbatim>\<open>(0, io.EOF)\<close>, still without touching anything.
\<close>

theorem basic_Read_empty_dest:
  assumes "len p = 0"
  shows "basic_Read (Some b) p =
    (if b = [] then Inr ((0, Some EOF), backing p, Some b)
     else Inr ((0, None), backing p, Some b))"
  using assms by (simp add: basic_Read_def)

theorem basic_Read_empty_dest_witness:
  "len (Slice [] ''xy'') = 0 \<and>
   basic_Read (Some ''Hello'') (Slice [] ''xy'') = Inr ((0, None), ''xy'', Some ''Hello'') \<and>
   basic_Read (Some ''Hello'') NilSlice = Inr ((0, None), [], Some ''Hello'') \<and>
   basic_Read (Some []) NilSlice = Inr ((0, Some EOF), [], Some [])"
  using basic_Read_empty_dest [of "Slice [] ''xy''" "''Hello''"]
    basic_Read_empty_dest [of NilSlice "''Hello''"]
    basic_Read_empty_dest [of NilSlice "[]"]
  by simp

section \<open>The wrapper, one call at a time\<close>

text \<open>
  C6. \<^verbatim>\<open>Err\<close> returns what the slot holds (nil when nothing is pending), empties the
  slot in the same step and leaves the wrapped source alone; a second \<^verbatim>\<open>Err\<close> right
  after the first returns nil, in every state of the wrapper.
\<close>

theorem Reader_Err_twice:
  "fst (Reader_Err rd) = err rd \<and>
   err (snd (Reader_Err rd)) = None \<and>
   r (snd (Reader_Err rd)) = r rd \<and>
   fst (Reader_Err (snd (Reader_Err rd))) = None \<and>
   snd (Reader_Err (snd (Reader_Err rd))) = snd (Reader_Err rd)"
  by (simp add: Reader_Err_def)

text \<open>
  C4. When the slot is occupied at entry, \<^verbatim>\<open>Read\<close> returns \<open>(0, stored error)\<close> and
  empties the slot. The wrapped source is not called: the result is the same whatever
  the source's \<^verbatim>\<open>Read\<close> is (also for one that would panic, and for a Reader whose
  \<open>r\<close> is nil), the state of the source is the old one, and the bytes behind \<^verbatim>\<open>p\<close> are
  the old ones.
\<close>

theorem Reader_Read_pending:
  assumes "err rd = Some e"
  shows "Reader_Read src rd p = Inr ((0, Some e), backing p, rd\<lparr>err := None\<rparr>) \<and>
    written p (backing p) = p"
  using assms by (simp add: Reader_Read_def Reader_Err_def written_backing)

theorem Reader_Read_pending_witness:
  "err \<lparr>err = Some EOF, r = Some (Some [])\<rparr> = Some EOF \<and>
   Reader_Read basic_Read \<lparr>err = Some EOF, r = Some (Some [])\<rparr> (Slice ''ab'' ''c'') =
     Inr ((0, Some EOF), ''abc'', \<lparr>err = None, r = Some (Some [])\<rparr>) \<and>
   Reader_Read (\<lambda>s p. Inl (SourcePanic ''called'')) \<lparr>err = Some EOF, r = Some (Some [])\<rparr>
       (Slice ''ab'' ''c'') =
     Inr ((0, Some EOF), ''abc'', \<lparr>err = None, r = Some (Some [])\<rparr>)"
  using Reader_Read_pending [of "\<lparr>err = Some EOF, r = Some (Some [])\<rparr>" EOF basic_Read
      "Slice ''ab'' ''c''"]
    Reader_Read_pending [of "\<lparr>err = Some EOF, r = Some (Some [])\<rparr>" EOF
      "\<lambda>s p. Inl (SourcePanic ''called'')" "Slice ''ab'' ''c''"]
  by simp

text \<open>
  C5. A call of \<^verbatim>\<open>Read\<close> that reaches the source (the slot is empty at entry) and gets
  \<open>(n, e)\<close> from it: when \<open>n \<noteq> 0\<close> and \<open>e\<close> is an error, the call returns \<open>(n, nil)\<close>
  and the slot holds exactly \<open>e\<close>; in every other case the call returns \<open>(n, e)\<close> as it
  is and the slot stays empty. Either way the bytes written by the source are passed on.
\<close>

theorem Reader_Read_forwarded:
  assumes "err rd = None" and "r rd = Some s" and "src s p = Inr ((n, e), m, s')"
  shows "Reader_Read src rd p =
    (if n \<noteq> 0 \<and> e \<noteq> None
     then Inr ((n, None), m, \<lparr>err = e, r = Some s'\<rparr>)
     else Inr ((n, e), m, \<lparr>err = None, r = Some s'\<rparr>))"
  using assms by (simp add: Reader_Read_def)

theorem Reader_Read_forwarded_witness:
  "err \<lparr>err = None, r = Some (Some ''ld!'')\<rparr> = None \<and>
   r \<lparr>err = None :: io_error option, r = Some (Some ''ld!'')\<rparr> = Some (Some ''ld!'') \<and>
   basic_Read (Some ''ld!'') (Slice ''Hello, Wor'' []) =
     Inr ((3, Some EOF), ''ld!lo, Wor'', Some []) \<and>
   Reader_Read basic_Read \<lparr>err = None, r = Some (Some ''ld!'')\<rparr> (Slice ''Hello, Wor'' []) =
     Inr ((3, None), ''ld!lo, Wor'', \<lparr>err = Some EOF, r = Some (Some [])\<rparr>) \<and>
   basic_Read (Some ''Hello'') (Slice ''ab'' []) = Inr ((2, None), ''He'', Some ''llo'') \<and>
   Reader_Read basic_Read \<lparr>err = None, r = Some (Some ''Hello'')\<rparr> (Slice ''ab'' []) =
     Inr ((2, None), ''He'', \<lparr>err = None, r = Some (Some ''llo'')\<rparr>)"
proof -
  have h1: "basic_Read (Some ''ld!'') (Slice ''Hello, Wor'' []) =
      Inr ((3, Some EOF), ''ld!lo, Wor'', Some [])"
    by (simp add: basic_Read_def copy_def)
  have h2: "basic_Read (Some ''Hello'') (Slice ''ab'' []) = Inr ((2, None), ''He'', Some ''llo'')"
    by (simp add: basic_Read_def copy_def)
  show ?thesis
    using h1 h2
      Reader_Read_forwarded [of "\<lparr>err = None, r = Some (Some ''ld!'')\<rparr>" "Some ''ld!''"
        basic_Read "Slice ''Hello, Wor'' []" 3 "Some EOF" "''ld!lo, Wor''" "Some []"]
      Reader_Read_forwarded [of "\<lparr>err = None, r = Some (Some ''Hello'')\<rparr>" "Some ''Hello''"
        basic_Read "Slice ''ab'' []" 2 None "''He''" "Some ''llo''"]
    by simp
qed

section \<open>The wrapper over sequences of calls\<close>

subsection \<open>Auxiliary facts\<close>

lemma Reader_Read_no_dual:
  "Reader_Read src rd p = Inr ((n, e), m, rd') \<Longrightarrow> n \<noteq> 0 \<Longrightarrow> e = None"
  by (auto simp: Reader_Read_def Reader_Err_def split: if_splits option.splits sum.splits)

lemma run_strict: "list_all strict (fst (run src rd cs))"
proof (induction cs arbitrary: rd)
  case Nil
  show ?case by simp
next
  case (Cons c cs)
  show ?case
  proof (cases c)
    case CallErr
    have "list_all strict (fst (run src (rd\<lparr>err := None\<rparr>) cs))" by (rule Cons.IH)
    then show ?thesis using CallErr by (auto simp: Reader_Err_def split: prod.splits)
  next
    case (CallRead p)
    show ?thesis
    proof (cases "Reader_Read src rd p")
      case (Inl x)
      then show ?thesis using CallRead by simp
    next
      case (Inr res)
      obtain n e m rd1 where res: "res = ((n, e), m, rd1)" by (metis prod_cases3 surj_pair)
      have "0 < n \<longrightarrow> e = None" using Reader_Read_no_dual [of src rd p n e m rd1] Inr res by auto
      moreover have "list_all strict (fst (run src rd1 cs))" by (rule Cons.IH)
      ultimately show ?thesis using CallRead Inr res by (auto split: prod.splits)
    qed
  qed
qed

lemma run_logged:
  "run (logged src) rd cs = (outs, rd') \<Longrightarrow> r rd = Some (s, lg) \<Longrightarrow>
   \<exists>s' new. r rd' = Some (s', lg @ new) \<and> direct src s (map fst new) = (new, s') \<and>
     filter (\<lambda>b. b \<noteq> []) (map out_bytes outs) = filter (\<lambda>b. b \<noteq> []) (map entry_bytes new) \<and>
     pending (err rd) @ returned new = delivered outs @ pending (err rd')"
proof (induction cs arbitrary: rd outs s lg)
  case Nil
  then show ?case by (auto simp: returned_def delivered_def)
next
  case (Cons c cs)
  show ?case
  proof (cases c)
    case CallErr
    obtain outs1 where run1: "run (logged src) (rd\<lparr>err := None\<rparr>) cs = (outs1, rd')"
      and outs: "outs = ErrOut (err rd) # outs1"
      using Cons.prems(1) CallErr by (auto simp: Reader_Err_def split: prod.splits)
    have "r (rd\<lparr>err := None\<rparr>) = Some (s, lg)" using Cons.prems(2) by simp
    from Cons.IH [OF run1 this] obtain s' new where
      "r rd' = Some (s', lg @ new)" "direct src s (map fst new) = (new, s')"
      "filter (\<lambda>b. b \<noteq> []) (map out_bytes outs1) = filter (\<lambda>b. b \<noteq> []) (map entry_bytes new)"
      "pending (err (rd\<lparr>err := None\<rparr>)) @ returned new = delivered outs1 @ pending (err rd')"
      by blast
    then show ?thesis using outs by (auto simp: delivered_def)
  next
    case (CallRead p)
    show ?thesis
    proof (cases "err rd")
      case (Some x)
      have rr: "Reader_Read (logged src) rd p = Inr ((0, Some x), backing p, rd\<lparr>err := None\<rparr>)"
        using Some by (simp add: Reader_Read_def Reader_Err_def)
      obtain outs1 where run1: "run (logged src) (rd\<lparr>err := None\<rparr>) cs = (outs1, rd')"
        and outs: "outs = ReadOut 0 (Some x) (written p (backing p)) # outs1"
        using Cons.prems(1) CallRead rr by (auto split: prod.splits)
      have "r (rd\<lparr>err := None\<rparr>) = Some (s, lg)" using Cons.prems(2) by simp
      from Cons.IH [OF run1 this] obtain s' new where
        "r rd' = Some (s', lg @ new)" "direct src s (map fst new) = (new, s')"
        "filter (\<lambda>b. b \<noteq> []) (map out_bytes outs1) = filter (\<lambda>b. b \<noteq> []) (map entry_bytes new)"
        "pending (err (rd\<lparr>err := None\<rparr>)) @ returned new = delivered outs1 @ pending (err rd')"
        by blast
      then show ?thesis using outs Some by (auto simp: delivered_def)
    next
      case None
      show ?thesis
      proof (cases "src s p")
        case (Inl x)
        have "Reader_Read (logged src) rd p = Inl x"
          using None Cons.prems(2) Inl by (simp add: Reader_Read_def logged_def)
        then have "outs = []" "rd' = rd" using Cons.prems(1) CallRead by auto
        then show ?thesis using Cons.prems(2) by (auto simp: returned_def delivered_def)
      next
        case (Inr res)
        obtain n e m s1 where res: "res = ((n, e), m, s1)" by (metis prod_cases3 surj_pair)
        define en where "en = (p, n, e, written p m)"
        define rd1 where "rd1 = (if n \<noteq> 0 \<and> e \<noteq> None
          then rd\<lparr>err := e, r := Some (s1, lg @ [en])\<rparr> else rd\<lparr>r := Some (s1, lg @ [en])\<rparr>)"
        define e1 where "e1 = (if n \<noteq> 0 \<and> e \<noteq> None then None else e)"
        have rr: "Reader_Read (logged src) rd p = Inr ((n, e1), m, rd1)"
          using None Cons.prems(2) Inr res
          by (simp add: Reader_Read_def logged_def rd1_def e1_def en_def)
        obtain outs1 where run1: "run (logged src) rd1 cs = (outs1, rd')"
          and outs: "outs = ReadOut n e1 (written p m) # outs1"
          using Cons.prems(1) CallRead rr by (auto split: prod.splits)
        have r1: "r rd1 = Some (s1, lg @ [en])" by (simp add: rd1_def)
        from Cons.IH [OF run1 r1] obtain s' new where
          a: "r rd' = Some (s', (lg @ [en]) @ new)" and b: "direct src s1 (map fst new) = (new, s')"
          and c: "filter (\<lambda>b. b \<noteq> []) (map out_bytes outs1) = filter (\<lambda>b. b \<noteq> []) (map entry_bytes new)"
          and d: "pending (err rd1) @ returned new = delivered outs1 @ pending (err rd')"
          by blast
        have a': "r rd' = Some (s', lg @ (en # new))" using a by simp
        have b': "direct src s (map fst (en # new)) = (en # new, s')"
          using b Inr res by (simp add: en_def)
        have c': "filter (\<lambda>b. b \<noteq> []) (map out_bytes outs) = filter (\<lambda>b. b \<noteq> []) (map entry_bytes (en # new))"
          using c outs by (simp add: en_def)
        have d': "pending (err rd) @ returned (en # new) = delivered outs @ pending (err rd')"
        proof (cases "n \<noteq> 0 \<and> e \<noteq> None")
          case True
          then obtain x where x: "e = Some x" by auto
          have "err rd1 = Some x" "e1 = None" using True x by (simp_all add: rd1_def e1_def)
          then show ?thesis using d None outs x
            by (simp add: returned_def delivered_def en_def)
        next
          case False
          have "err rd1 = None" "e1 = e" using False None by (auto simp: rd1_def e1_def)
          then show ?thesis using d None outs
            by (simp add: returned_def delivered_def en_def)
        qed
        show ?thesis using a' b' c' d' by blast
      qed
    qed
  qed
qed


lemma run_logged_forwarded:
  "run (logged src) rd cs = (outs, rd') \<Longrightarrow> r rd = Some (s, lg) \<Longrightarrow>
   \<exists>s' new. r rd' = Some (s', lg @ new) \<and>
     direct src s (spec_forwarded src s (err rd \<noteq> None) cs) = (new, s')"
proof (induction cs arbitrary: rd outs s lg)
  case Nil
  then show ?case by auto
next
  case (Cons c cs)
  show ?case
  proof (cases c)
    case CallErr
    obtain outs1 where run1: "run (logged src) (rd\<lparr>err := None\<rparr>) cs = (outs1, rd')"
      using Cons.prems(1) CallErr by (auto simp: Reader_Err_def split: prod.splits)
    have "r (rd\<lparr>err := None\<rparr>) = Some (s, lg)" using Cons.prems(2) by simp
    from Cons.IH [OF run1 this] show ?thesis using CallErr by simp
  next
    case (CallRead p)
    show ?thesis
    proof (cases "err rd")
      case (Some x)
      have rr: "Reader_Read (logged src) rd p = Inr ((0, Some x), backing p, rd\<lparr>err := None\<rparr>)"
        using Some by (simp add: Reader_Read_def Reader_Err_def)
      obtain outs1 where run1: "run (logged src) (rd\<lparr>err := None\<rparr>) cs = (outs1, rd')"
        using Cons.prems(1) CallRead rr by (auto split: prod.splits)
      have "r (rd\<lparr>err := None\<rparr>) = Some (s, lg)" using Cons.prems(2) by simp
      from Cons.IH [OF run1 this] show ?thesis using CallRead Some by simp
    next
      case None
      show ?thesis
      proof (cases "src s p")
        case (Inl x)
        have "Reader_Read (logged src) rd p = Inl x"
          using None Cons.prems(2) Inl by (simp add: Reader_Read_def logged_def)
        then have "rd' = rd" using Cons.prems(1) CallRead by auto
        then show ?thesis using Cons.prems(2) CallRead None Inl by simp
      next
        case (Inr res)
        obtain n e m s1 where res: "res = ((n, e), m, s1)" by (metis prod_cases3 surj_pair)
        define en where "en = (p, n, e, written p m)"
        define rd1 where "rd1 = (if n \<noteq> 0 \<and> e \<noteq> None
          then rd\<lparr>err := e, r := Some (s1, lg @ [en])\<rparr> else rd\<lparr>r := Some (s1, lg @ [en])\<rparr>)"
        define e1 where "e1 = (if n \<noteq> 0 \<and> e \<noteq> None then None else e)"
        have rr: "Reader_Read (logged src) rd p = Inr ((n, e1), m, rd1)"
          using None Cons.prems(2) Inr res
          by (simp add: Reader_Read_def logged_def rd1_def e1_def en_def)
        obtain outs1 where run1: "run (logged src) rd1 cs = (outs1, rd')"
          using Cons.prems(1) CallRead rr by (auto split: prod.splits)
        have r1: "r rd1 = Some (s1, lg @ [en])" by (simp add: rd1_def)
        have p1: "(err rd1 \<noteq> None) = (n \<noteq> 0 \<and> e \<noteq> None)"
          using None by (auto simp: rd1_def)
        from Cons.IH [OF run1 r1] obtain s' new where
          a: "r rd' = Some (s', (lg @ [en]) @ new)"
          and b: "direct src s1 (spec_forwarded src s1 (err rd1 \<noteq> None) cs) = (new, s')"
          by blast
        have a': "r rd' = Some (s', lg @ (en # new))" using a by simp
        have b': "direct src s (spec_forwarded src s (err rd \<noteq> None) (c # cs)) = (en # new, s')"
          using b p1 None Inr res CallRead by (simp add: en_def)
        show ?thesis using a' b' by blast
      qed
    qed
  qed
qed

lemma Reader_Read_unlog:
  "Reader_Read src (unlog rd) p =
     (case Reader_Read (logged src) rd p of
        Inl x \<Rightarrow> Inl x
      | Inr (ne, m, rd') \<Rightarrow> Inr (ne, m, unlog rd'))"
  by (auto simp: Reader_Read_def Reader_Err_def logged_def unlog_def
      split: option.splits sum.splits prod.splits)

lemma run_unlog:
  "run src (unlog rd) cs = (case run (logged src) rd cs of (outs, rd') \<Rightarrow> (outs, unlog rd'))"
proof (induction cs arbitrary: rd)
  case Nil
  show ?case by simp
next
  case (Cons c cs)
  show ?case
  proof (cases c)
    case CallErr
    have u: "(unlog rd)\<lparr>err := None\<rparr> = unlog (rd\<lparr>err := None\<rparr>)" "err (unlog rd) = err rd"
      by (simp_all add: unlog_def)
    show ?thesis using CallErr Cons.IH [of "rd\<lparr>err := None\<rparr>"]
      by (simp add: Reader_Err_def u split: prod.splits)
  next
    case (CallRead p)
    show ?thesis
    proof (cases "Reader_Read (logged src) rd p")
      case (Inl x)
      then show ?thesis using CallRead by (simp add: Reader_Read_unlog)
    next
      case (Inr res)
      obtain ne m rd1 where res: "res = (ne, m, rd1)" by (metis prod_cases3)
      obtain n e where ne: "ne = (n, e)" by (cases ne)
      show ?thesis using CallRead Inr res ne Cons.IH [of rd1]
        by (simp add: Reader_Read_unlog split: prod.splits)
    qed
  qed
qed

lemma concat_filter_nonempty: "concat (filter (\<lambda>b. b \<noteq> []) xs) = concat xs"
  by (induction xs) auto

subsection \<open>The strict contract\<close>

text \<open>
  C1. Whatever source is wrapped and whatever state the wrapper is in, a \<^verbatim>\<open>Read\<close> of
  the wrapper that returns \<open>n > 0\<close> returns a nil error in that same call; so in every
  sequence of \<^verbatim>\<open>Read\<close> and \<^verbatim>\<open>Err\<close> calls, from every state, every outcome is strict.
\<close>

theorem Reader_Read_never_both:
  "(Reader_Read src rd p = Inr ((n, e), m, rd') \<and> 0 < n \<longrightarrow> e = None) \<and>
   list_all strict (fst (run src rd0 cs))"
  using Reader_Read_no_dual [of src rd p n e m rd'] run_strict [of src rd0 cs] by auto

theorem Reader_Read_never_both_witness:
  "Reader_Read basic_Read \<lparr>err = None, r = Some (Some ''o!'')\<rparr> (Slice ''xxxx'' []) =
     Inr ((2, None), ''o!xx'', \<lparr>err = Some EOF, r = Some (Some [])\<rparr>) \<and>
   (0 :: int) < 2 \<and>
   fst (run basic_Read \<lparr>err = None, r = Some (Some ''Hello!'')\<rparr>
      [CallRead (Slice ''xxxx'' []), CallRead (Slice ''xxxx'' []), CallRead (Slice ''xxxx'' [])]) =
     [ReadOut 4 None (Slice ''Hell'' []), ReadOut 2 None (Slice ''o!xx'' []),
      ReadOut 0 (Some EOF) (Slice ''xxxx'' [])] \<and>
   list_all strict [ReadOut 4 None (Slice ''Hell'' []), ReadOut 2 None (Slice ''o!xx'' []),
      ReadOut 0 (Some EOF) (Slice ''xxxx'' [])]"
proof -
  have h: "fst (run basic_Read \<lparr>err = None, r = Some (Some ''Hello!'')\<rparr>
      [CallRead (Slice ''xxxx'' []), CallRead (Slice ''xxxx'' []), CallRead (Slice ''xxxx'' [])]) =
     [ReadOut 4 None (Slice ''Hell'' []), ReadOut 2 None (Slice ''o!xx'' []),
      ReadOut 0 (Some EOF) (Slice ''xxxx'' [])]"
    by (simp add: Reader_Read_def Reader_Err_def basic_Read_def copy_def Let_def)
  have k: "Reader_Read basic_Read \<lparr>err = None, r = Some (Some ''o!'')\<rparr> (Slice ''xxxx'' []) =
     Inr ((2, None), ''o!xx'', \<lparr>err = Some EOF, r = Some (Some [])\<rparr>)"
    by (simp add: Reader_Read_def basic_Read_def copy_def)
  note t = Reader_Read_never_both [of basic_Read "\<lparr>err = None, r = Some (Some ''o!'')\<rparr>"
        "Slice ''xxxx'' []" 2 None "''o!xx''" "\<lparr>err = Some EOF, r = Some (Some [])\<rparr>"
        "\<lparr>err = None, r = Some (Some ''Hello!'')\<rparr>"
        "[CallRead (Slice ''xxxx'' []), CallRead (Slice ''xxxx'' []), CallRead (Slice ''xxxx'' [])]"]
  have l: "list_all strict [ReadOut 4 None (Slice ''Hell'' []), ReadOut 2 None (Slice ''o!xx'' []),
      ReadOut 0 (Some EOF) (Slice ''xxxx'' []) :: io_error outcome]"
    using t [THEN conjunct2] unfolding h .
  have z: "(0 :: int) < 2" by simp
  show ?thesis
    by (intro conjI) (fact k z h l)+
qed

subsection \<open>No data is lost\<close>

text \<open>
  C2. A source \<open>src\<close> in state \<open>s\<close> is wrapped, and the caller makes any sequence
  \<open>cs\<close> of calls. Compare with reading the source directly, without the wrapper, with the
  caller's own slices, leaving out only the calls that the wrapper has to answer from
  its slot (\<open>spec_forwarded\<close>). The calls that reached the source through the wrapper,
  as its journal has them, are exactly the calls of that direct reading, with the same
  answers, and the source ends in the same state. The non-empty byte results the wrapper
  returned are, one for one and in the same order, the non-empty byte results of the
  direct reading; so their concatenation is the concatenation of all bytes the source
  produces there. Nothing is lost, doubled or moved, however the source mixes data and
  errors. The first part says that the journal changes nothing for the caller.
\<close>

theorem Reader_loses_no_data:
  assumes "run (logged src) \<lparr>err = None, r = Some (s, [])\<rparr> cs = (outs, rd')"
  shows "run src \<lparr>err = None, r = Some s\<rparr> cs = (outs, unlog rd') \<and>
    (\<exists>s'. r rd' = Some (s', log_of rd') \<and>
       direct src s (spec_forwarded src s False cs) = (log_of rd', s') \<and>
       direct src s (map fst (log_of rd')) = (log_of rd', s')) \<and>
    filter (\<lambda>b. b \<noteq> []) (map out_bytes outs) =
      filter (\<lambda>b. b \<noteq> []) (map entry_bytes (fst (direct src s (spec_forwarded src s False cs)))) \<and>
    concat (filter (\<lambda>b. b \<noteq> []) (map out_bytes outs)) =
      concat (map entry_bytes (fst (direct src s (spec_forwarded src s False cs))))"
proof -
  have u: "unlog \<lparr>err = None, r = Some (s, [])\<rparr> = \<lparr>err = None, r = Some s\<rparr>"
    by (simp add: unlog_def)
  have "run src (unlog \<lparr>err = None, r = Some (s, [])\<rparr>) cs = (outs, unlog rd')"
    using run_unlog [of src "\<lparr>err = None, r = Some (s, [])\<rparr>" cs] assms by simp
  then have 1: "run src \<lparr>err = None, r = Some s\<rparr> cs = (outs, unlog rd')"
    unfolding u .
  from run_logged [OF assms, where s = s and lg = "[]"] obtain s' new where
    a: "r rd' = Some (s', [] @ new)" and b: "direct src s (map fst new) = (new, s')"
    and c: "filter (\<lambda>b. b \<noteq> []) (map out_bytes outs) = filter (\<lambda>b. b \<noteq> []) (map entry_bytes new)"
    by auto
  from run_logged_forwarded [OF assms, where s = s and lg = "[]"] obtain s'' new' where
    a2: "r rd' = Some (s'', [] @ new')"
    and d: "direct src s (spec_forwarded src s False cs) = (new', s'')"
    by auto
  have same: "new' = new" "s'' = s'" using a a2 by simp_all
  have lg: "log_of rd' = new" using a by (simp add: log_of_def)
  have d': "direct src s (spec_forwarded src s False cs) = (new, s')" using d same by simp
  have "concat (filter (\<lambda>b. b \<noteq> []) (map out_bytes outs)) = concat (map entry_bytes new)"
    using c by (simp add: concat_filter_nonempty)
  then show ?thesis using 1 a b c lg d' by simp
qed

theorem Reader_loses_no_data_witness:
  "run (logged basic_Read) \<lparr>err = None, r = Some (Some ''Hello!'', [])\<rparr>
      [CallRead (Slice ''aaaa'' []), CallRead (Slice ''bbbb'' []), CallRead (Slice ''cccc'' []),
       CallRead (Slice ''dd'' [])] =
     ([ReadOut 4 None (Slice ''Hell'' []), ReadOut 2 None (Slice ''o!bb'' []),
       ReadOut 0 (Some EOF) (Slice ''cccc'' []), ReadOut 0 (Some EOF) (Slice ''dd'' [])],
      \<lparr>err = None, r = Some (Some [],
        [(Slice ''aaaa'' [], 4, None, Slice ''Hell'' []),
         (Slice ''bbbb'' [], 2, Some EOF, Slice ''o!bb'' []),
         (Slice ''dd'' [], 0, Some EOF, Slice ''dd'' [])])\<rparr>) \<and>
   run basic_Read \<lparr>err = None, r = Some (Some ''Hello!'')\<rparr>
      [CallRead (Slice ''aaaa'' []), CallRead (Slice ''bbbb'' []), CallRead (Slice ''cccc'' []),
       CallRead (Slice ''dd'' [])] =
     ([ReadOut 4 None (Slice ''Hell'' []), ReadOut 2 None (Slice ''o!bb'' []),
       ReadOut 0 (Some EOF) (Slice ''cccc'' []), ReadOut 0 (Some EOF) (Slice ''dd'' [])],
      \<lparr>err = None, r = Some (Some [])\<rparr>) \<and>
   spec_forwarded basic_Read (Some ''Hello!'') False
      [CallRead (Slice ''aaaa'' []), CallRead (Slice ''bbbb'' []), CallRead (Slice ''cccc'' []),
       CallRead (Slice ''dd'' [])] =
     [Slice ''aaaa'' [], Slice ''bbbb'' [], Slice ''dd'' []] \<and>
   direct basic_Read (Some ''Hello!'') [Slice ''aaaa'' [], Slice ''bbbb'' [], Slice ''dd'' []] =
     ([(Slice ''aaaa'' [], 4, None, Slice ''Hell'' []),
       (Slice ''bbbb'' [], 2, Some EOF, Slice ''o!bb'' []),
       (Slice ''dd'' [], 0, Some EOF, Slice ''dd'' [])], Some []) \<and>
   concat (filter (\<lambda>b. b \<noteq> []) (map out_bytes
     [ReadOut 4 None (Slice ''Hell'' []), ReadOut 2 None (Slice ''o!bb'' []),
      ReadOut 0 (Some EOF) (Slice ''cccc'' []),
      ReadOut 0 (Some EOF) (Slice ''dd'' []) :: io_error outcome])) = ''Hello!''"
proof -
  have h: "run (logged basic_Read) \<lparr>err = None, r = Some (Some ''Hello!'', [])\<rparr>
      [CallRead (Slice ''aaaa'' []), CallRead (Slice ''bbbb'' []), CallRead (Slice ''cccc'' []),
       CallRead (Slice ''dd'' [])] =
     ([ReadOut 4 None (Slice ''Hell'' []), ReadOut 2 None (Slice ''o!bb'' []),
       ReadOut 0 (Some EOF) (Slice ''cccc'' []), ReadOut 0 (Some EOF) (Slice ''dd'' [])],
      \<lparr>err = None, r = Some (Some [],
        [(Slice ''aaaa'' [], 4, None, Slice ''Hell'' []),
         (Slice ''bbbb'' [], 2, Some EOF, Slice ''o!bb'' []),
         (Slice ''dd'' [], 0, Some EOF, Slice ''dd'' [])])\<rparr>)"
    by (simp add: logged_def Reader_Read_def Reader_Err_def basic_Read_def copy_def Let_def)
  have f: "spec_forwarded basic_Read (Some ''Hello!'') False
      [CallRead (Slice ''aaaa'' []), CallRead (Slice ''bbbb'' []), CallRead (Slice ''cccc'' []),
       CallRead (Slice ''dd'' [])] =
     [Slice ''aaaa'' [], Slice ''bbbb'' [], Slice ''dd'' []]"
    by (simp add: basic_Read_def copy_def)
  note t = Reader_loses_no_data [OF h]
  have u: "run basic_Read \<lparr>err = None, r = Some (Some ''Hello!'')\<rparr>
      [CallRead (Slice ''aaaa'' []), CallRead (Slice ''bbbb'' []), CallRead (Slice ''cccc'' []),
       CallRead (Slice ''dd'' [])] =
     ([ReadOut 4 None (Slice ''Hell'' []), ReadOut 2 None (Slice ''o!bb'' []),
       ReadOut 0 (Some EOF) (Slice ''cccc'' []), ReadOut 0 (Some EOF) (Slice ''dd'' [])],
      \<lparr>err = None, r = Some (Some [])\<rparr>)"
    using t [THEN conjunct1] by (simp add: unlog_def)
  have d: "direct basic_Read (Some ''Hello!'') [Slice ''aaaa'' [], Slice ''bbbb'' [], Slice ''dd'' []] =
     ([(Slice ''aaaa'' [], 4, None, Slice ''Hell'' []),
       (Slice ''bbbb'' [], 2, Some EOF, Slice ''o!bb'' []),
       (Slice ''dd'' [], 0, Some EOF, Slice ''dd'' [])], Some [])"
    using t [THEN conjunct2, THEN conjunct1] unfolding f by (auto simp: log_of_def)
  have c: "concat (filter (\<lambda>b. b \<noteq> []) (map out_bytes
     [ReadOut 4 None (Slice ''Hell'' []), ReadOut 2 None (Slice ''o!bb'' []),
      ReadOut 0 (Some EOF) (Slice ''cccc'' []),
      ReadOut 0 (Some EOF) (Slice ''dd'' []) :: io_error outcome])) = ''Hello!''"
    using t [THEN conjunct2, THEN conjunct2, THEN conjunct2] unfolding f d by simp
  show ?thesis
    by (intro conjI) (fact h u f d c)+
qed

subsection \<open>Every error is delivered once\<close>

text \<open>
  C3. A call of \<^verbatim>\<open>Read\<close> reaches the source, and the source returns an error \<open>x\<close>
  with count \<open>n\<close>. When \<open>n = 0\<close>, that same call of the wrapper returns \<open>(0, x)\<close> and
  the slot stays empty. Otherwise the call returns \<open>(n, nil)\<close> and \<open>x\<close> waits in the
  slot; the next call, \<^verbatim>\<open>Read\<close> with any slice or \<^verbatim>\<open>Err\<close>, returns \<open>x\<close> and empties
  the slot, without a call of the source. Over a whole sequence of calls on a new
  wrapper, the errors the source returned are exactly the errors handed to the caller,
  in the same order and each once, followed by the one still waiting in the slot if the
  caller stopped before picking it up.
\<close>

theorem Reader_delivers_every_error_once:
  "(err rd = None \<and> r rd = Some s \<and> src s p = Inr ((n, Some x), m, s') \<longrightarrow>
      (if n = 0
       then Reader_Read src rd p = Inr ((0, Some x), m, \<lparr>err = None, r = Some s'\<rparr>)
       else Reader_Read src rd p = Inr ((n, None), m, \<lparr>err = Some x, r = Some s'\<rparr>) \<and>
            Reader_Read src \<lparr>err = Some x, r = Some s'\<rparr> p' =
              Inr ((0, Some x), backing p', \<lparr>err = None, r = Some s'\<rparr>) \<and>
            Reader_Err \<lparr>err = Some x, r = Some s'\<rparr> = (Some x, \<lparr>err = None, r = Some s'\<rparr>))) \<and>
   (run (logged src0) \<lparr>err = None, r = Some (s0, [])\<rparr> cs = (outs, rd1) \<longrightarrow>
      returned (log_of rd1) = delivered outs @ pending (err rd1))"
proof -
  have 1: "Reader_Read src rd p = Inr ((0, Some x), m, \<lparr>err = None, r = Some s'\<rparr>)"
    if "err rd = None" "r rd = Some s" "src s p = Inr ((n, Some x), m, s')" "n = 0"
    using that by (simp add: Reader_Read_def)
  have 2: "Reader_Read src rd p = Inr ((n, None), m, \<lparr>err = Some x, r = Some s'\<rparr>)"
    if "err rd = None" "r rd = Some s" "src s p = Inr ((n, Some x), m, s')" "n \<noteq> 0"
    using that by (simp add: Reader_Read_def)
  have 3: "Reader_Read src \<lparr>err = Some x, r = Some s'\<rparr> p' =
      Inr ((0, Some x), backing p', \<lparr>err = None, r = Some s'\<rparr>)"
    by (simp add: Reader_Read_def Reader_Err_def)
  have 4: "Reader_Err \<lparr>err = Some x, r = Some s'\<rparr> = (Some x, \<lparr>err = None, r = Some s'\<rparr>)"
    by (simp add: Reader_Err_def)
  have 5: "returned (log_of rd1) = delivered outs @ pending (err rd1)"
    if h: "run (logged src0) \<lparr>err = None, r = Some (s0, [])\<rparr> cs = (outs, rd1)"
  proof -
    from run_logged [OF h, where s = s0 and lg = "[]"] obtain s1 new where
      a: "r rd1 = Some (s1, [] @ new)"
      and d: "pending (err \<lparr>err = None, r = Some (s0, [])\<rparr>) @ returned new =
        delivered outs @ pending (err rd1)"
      by auto
    have "log_of rd1 = new" using a by (simp add: log_of_def)
    then show ?thesis using d by simp
  qed
  show ?thesis using 1 2 3 4 5 by simp
qed

theorem Reader_delivers_every_error_once_witness:
  "basic_Read (Some ''o!'') (Slice ''xxxx'' []) = Inr ((2, Some EOF), ''o!xx'', Some []) \<and>
   Reader_Read basic_Read \<lparr>err = None, r = Some (Some ''o!'')\<rparr> (Slice ''xxxx'' []) =
     Inr ((2, None), ''o!xx'', \<lparr>err = Some EOF, r = Some (Some [])\<rparr>) \<and>
   Reader_Read basic_Read \<lparr>err = Some EOF, r = Some (Some [])\<rparr> (Slice ''yy'' []) =
     Inr ((0, Some EOF), ''yy'', \<lparr>err = None, r = Some (Some [])\<rparr>) \<and>
   basic_Read (Some []) (Slice ''yy'' []) = Inr ((0, Some EOF), ''yy'', Some []) \<and>
   Reader_Read basic_Read \<lparr>err = None, r = Some (Some [])\<rparr> (Slice ''yy'' []) =
     Inr ((0, Some EOF), ''yy'', \<lparr>err = None, r = Some (Some [])\<rparr>) \<and>
   run (logged basic_Read) \<lparr>err = None, r = Some (Some ''Hello!'', [])\<rparr>
      [CallRead (Slice ''xxxx'' []), CallRead (Slice ''xxxx'' []), CallErr,
       CallRead (Slice ''xxxx'' []), CallErr] =
     ([ReadOut 4 None (Slice ''Hell'' []), ReadOut 2 None (Slice ''o!xx'' []), ErrOut (Some EOF),
       ReadOut 0 (Some EOF) (Slice ''xxxx'' []), ErrOut None],
      \<lparr>err = None, r = Some (Some [],
        [(Slice ''xxxx'' [], 4, None, Slice ''Hell'' []),
         (Slice ''xxxx'' [], 2, Some EOF, Slice ''o!xx'' []),
         (Slice ''xxxx'' [], 0, Some EOF, Slice ''xxxx'' [])])\<rparr>) \<and>
   returned [(Slice ''xxxx'' [], 4, None, Slice ''Hell'' []),
         (Slice ''xxxx'' [], 2, Some EOF, Slice ''o!xx'' []),
         (Slice ''xxxx'' [], 0, Some EOF, Slice ''xxxx'' [])] = [EOF, EOF] \<and>
   delivered [ReadOut 4 None (Slice ''Hell'' []), ReadOut 2 None (Slice ''o!xx'' []),
       ErrOut (Some EOF), ReadOut 0 (Some EOF) (Slice ''xxxx'' []), ErrOut None] = [EOF, EOF]"
proof -
  have h1: "basic_Read (Some ''o!'') (Slice ''xxxx'' []) = Inr ((2, Some EOF), ''o!xx'', Some [])"
    by (simp add: basic_Read_def copy_def)
  have h2: "basic_Read (Some []) (Slice ''yy'' []) = Inr ((0, Some EOF), ''yy'', Some [])"
    by (simp add: basic_Read_def)
  have h3: "run (logged basic_Read) \<lparr>err = None, r = Some (Some ''Hello!'', [])\<rparr>
      [CallRead (Slice ''xxxx'' []), CallRead (Slice ''xxxx'' []), CallErr,
       CallRead (Slice ''xxxx'' []), CallErr] =
     ([ReadOut 4 None (Slice ''Hell'' []), ReadOut 2 None (Slice ''o!xx'' []), ErrOut (Some EOF),
       ReadOut 0 (Some EOF) (Slice ''xxxx'' []), ErrOut None],
      \<lparr>err = None, r = Some (Some [],
        [(Slice ''xxxx'' [], 4, None, Slice ''Hell'' []),
         (Slice ''xxxx'' [], 2, Some EOF, Slice ''o!xx'' []),
         (Slice ''xxxx'' [], 0, Some EOF, Slice ''xxxx'' [])])\<rparr>)"
    by (simp add: logged_def Reader_Read_def Reader_Err_def basic_Read_def copy_def Let_def)
  have pre1: "err \<lparr>err = None :: io_error option, r = Some (Some ''o!'')\<rparr> = None \<and>
      r \<lparr>err = None :: io_error option, r = Some (Some ''o!'')\<rparr> = Some (Some ''o!'') \<and>
      basic_Read (Some ''o!'') (Slice ''xxxx'' []) = Inr ((2, Some EOF), ''o!xx'', Some [])"
    using h1 by simp
  note c1 = Reader_delivers_every_error_once [of "\<lparr>err = None, r = Some (Some ''o!'')\<rparr>"
      "Some ''o!''" basic_Read "Slice ''xxxx'' []" 2 EOF "''o!xx''" "Some []" "Slice ''yy'' []",
      THEN conjunct1, THEN mp, OF pre1]
  have t1: "Reader_Read basic_Read \<lparr>err = None, r = Some (Some ''o!'')\<rparr> (Slice ''xxxx'' []) =
     Inr ((2, None), ''o!xx'', \<lparr>err = Some EOF, r = Some (Some [])\<rparr>)"
    using c1 by simp
  have t2: "Reader_Read basic_Read \<lparr>err = Some EOF, r = Some (Some [])\<rparr> (Slice ''yy'' []) =
     Inr ((0, Some EOF), ''yy'', \<lparr>err = None, r = Some (Some [])\<rparr>)"
    using c1 by simp
  have pre2: "err \<lparr>err = None :: io_error option, r = Some (Some [])\<rparr> = None \<and>
      r \<lparr>err = None :: io_error option, r = Some (Some [])\<rparr> = Some (Some []) \<and>
      basic_Read (Some []) (Slice ''yy'' []) = Inr ((0, Some EOF), ''yy'', Some [])"
    using h2 by simp
  note c2 = Reader_delivers_every_error_once [of "\<lparr>err = None, r = Some (Some [])\<rparr>"
      "Some []" basic_Read "Slice ''yy'' []" 0 EOF "''yy''" "Some []",
      THEN conjunct1, THEN mp, OF pre2]
  have t3: "Reader_Read basic_Read \<lparr>err = None, r = Some (Some [])\<rparr> (Slice ''yy'' []) =
     Inr ((0, Some EOF), ''yy'', \<lparr>err = None, r = Some (Some [])\<rparr>)"
    using c2 by simp
  note c3 = Reader_delivers_every_error_once [THEN conjunct2, THEN mp, OF h3]
  have t4: "returned [(Slice ''xxxx'' [], 4, None, Slice ''Hell'' []),
         (Slice ''xxxx'' [], 2, Some EOF, Slice ''o!xx'' []),
         (Slice ''xxxx'' [], 0, Some EOF, Slice ''xxxx'' [])] = [EOF, EOF :: io_error]"
    using c3 by (simp add: log_of_def delivered_def)
  have t5: "delivered [ReadOut 4 None (Slice ''Hell'' []), ReadOut 2 None (Slice ''o!xx'' []),
       ErrOut (Some EOF), ReadOut 0 (Some EOF) (Slice ''xxxx'' []), ErrOut None] = [EOF, EOF]"
    by (simp add: delivered_def)
  show ?thesis
    by (intro conjI) (fact h1 t1 t2 h2 t3 h3 t4 t5)+
qed

section \<open>The helper function\<close>

text \<open>
  C7, as stated, fails for a source that reports more bytes than the slice can hold.
  For a nil \<^verbatim>\<open>p\<close> the test \<^verbatim>\<open>p != nil\<close> skips the slice expression, and the helper
  returns the nil slice, of length 0, though the source reported 1. For an empty \<^verbatim>\<open>p\<close>
  that is not nil, \<^verbatim>\<open>p[:1]\<close> is out of range and the helper panics.
\<close>

theorem Read_nil_buffer_counterexample:
  "over_reporting () NilSlice = Inr ((1, None), [], ()) \<and>
   Read over_reporting () NilSlice = Inr ((NilSlice, None), ()) \<and>
   int (len NilSlice) \<noteq> 1 \<and>
   over_reporting () (Slice [] []) = Inr ((1, None), [], ()) \<and>
   Read over_reporting () (Slice [] []) = Inl SliceBoundsOutOfRange"
  by (simp add: Read_def over_reporting_def)

text \<open>
  C7, amended. The helper calls the source once, with \<^verbatim>\<open>p[:cap(p)]\<close>. When the count
  \<open>n\<close> the source reports satisfies \<open>0 \<le> n \<le> cap(p)\<close>, as the contract of
  \<^verbatim>\<open>io.Reader\<close> demands, the helper returns the source's error and a slice of length
  exactly \<open>n\<close>: the first \<open>n\<close> bytes behind \<^verbatim>\<open>p\<close> after the call, over the same array and
  with the capacity of \<^verbatim>\<open>p\<close> (nothing is allocated), nil exactly when \<^verbatim>\<open>p\<close> is nil. A nil
  \<^verbatim>\<open>p\<close> gives a nil slice whatever count is reported. For a \<^verbatim>\<open>p\<close> that is not nil, a
  count outside \<open>0 .. cap(p)\<close> makes the helper panic.
\<close>

theorem Read_right_sized:
  assumes "slice_to p (int (cap p)) = Inr p1" and "src s p1 = Inr ((n, e), m, s')"
  shows "(0 \<le> n \<and> n \<le> int (cap p) \<longrightarrow>
      (\<exists>q. Read src s p = Inr ((q, e), s') \<and> int (len q) = n \<and>
         bytes q = take (nat n) (backing (written p1 m)) \<and>
         backing q = backing (written p1 m) \<and> cap q = cap p \<and>
         (q = NilSlice \<longleftrightarrow> p = NilSlice))) \<and>
    (p = NilSlice \<longrightarrow> Read src s p = Inr ((NilSlice, e), s')) \<and>
    (p \<noteq> NilSlice \<and> \<not> (0 \<le> n \<and> n \<le> int (cap p)) \<longrightarrow>
       Read src s p = Inl SliceBoundsOutOfRange)"
proof (cases p)
  case NilSlice
  then show ?thesis using assms by (auto simp: Read_def)
next
  case (Slice v sp)
  then have p1: "p1 = Slice (v @ sp) []" using assms(1) by auto
  obtain a where a: "written p1 m = Slice a []" and la: "length a = length v + length sp"
    using p1 by (auto simp: Let_def)
  show ?thesis using Slice assms a la p1 by (auto simp: Read_def Let_def)
qed

theorem Read_right_sized_witness:
  "slice_to (Slice ''ab'' ''cdef'') (int (cap (Slice ''ab'' ''cdef''))) = Inr (Slice ''abcdef'' []) \<and>
   basic_Read (Some ''Hi'') (Slice ''abcdef'' []) = Inr ((2, Some EOF), ''Hicdef'', Some []) \<and>
   ((0 :: int) \<le> 2 \<and> 2 \<le> int (cap (Slice ''ab'' ''cdef''))) \<and>
   (\<exists>q. Read basic_Read (Some ''Hi'') (Slice ''ab'' ''cdef'') = Inr ((q, Some EOF), Some []) \<and>
      int (len q) = 2 \<and> bytes q = ''Hi'' \<and> cap q = 6) \<and>
   basic_Read (Some ''Hi'') NilSlice = Inr ((0, None), [], Some ''Hi'') \<and>
   Read basic_Read (Some ''Hi'') NilSlice = Inr ((NilSlice, None), Some ''Hi'') \<and>
   over_reporting () (Slice [] []) = Inr ((1, None), [], ()) \<and>
   Read over_reporting () (Slice [] []) = Inl SliceBoundsOutOfRange"
proof -
  have a1: "slice_to (Slice ''ab'' ''cdef'') (int (cap (Slice ''ab'' ''cdef''))) =
      Inr (Slice ''abcdef'' [])"
    by simp
  have b1: "basic_Read (Some ''Hi'') (Slice ''abcdef'' []) =
      Inr ((2, Some EOF), ''Hicdef'', Some [])"
    by (simp add: basic_Read_def copy_def)
  have c1: "(0 :: int) \<le> 2 \<and> 2 \<le> int (cap (Slice ''ab'' ''cdef''))"
    by simp
  note t1 = Read_right_sized [of "Slice ''ab'' ''cdef''" "Slice ''abcdef'' []" basic_Read
      "Some ''Hi''" 2 "Some EOF" "''Hicdef''" "Some []", OF a1 b1]
  have d1: "\<exists>q. Read basic_Read (Some ''Hi'') (Slice ''ab'' ''cdef'') = Inr ((q, Some EOF), Some []) \<and>
      int (len q) = 2 \<and> bytes q = ''Hi'' \<and> cap q = 6"
    using t1 [THEN conjunct1, THEN mp, OF c1] by (auto simp: Let_def)
  have a2: "slice_to NilSlice (int (cap NilSlice)) = Inr NilSlice"
    by simp
  have b2: "basic_Read (Some ''Hi'') NilSlice = Inr ((0, None), [], Some ''Hi'')"
    by (simp add: basic_Read_def)
  note t2 = Read_right_sized [of NilSlice NilSlice basic_Read "Some ''Hi''" 0 None "[]"
      "Some ''Hi''", OF a2 b2]
  have d2: "Read basic_Read (Some ''Hi'') NilSlice = Inr ((NilSlice, None), Some ''Hi'')"
    using t2 by simp
  have a3: "slice_to (Slice [] []) (int (cap (Slice [] []))) = Inr (Slice [] [])"
    by simp
  have b3: "over_reporting () (Slice [] []) = Inr ((1, None), [], ())"
    by (simp add: over_reporting_def)
  note t3 = Read_right_sized [of "Slice [] []" "Slice [] []" over_reporting "()" 1 None "[]" "()",
      OF a3 b3]
  have d3: "Read over_reporting () (Slice [] []) = Inl SliceBoundsOutOfRange"
    using t3 by simp
  note z1 = c1 [THEN conjunct1] and z2 = c1 [THEN conjunct2]
  show ?thesis
    by (intro conjI) (fact a1 b1 z1 z2 d1 b2 d2 b3 d3)+
qed

section \<open>The example\<close>

text \<open>
  C9. A \<^verbatim>\<open>basic\<close> holding "Hello, World!" is wrapped by \<^verbatim>\<open>NewReader\<close> and read three
  times into the same slice of length 10: the first read returns 10 and leaves
  "Hello, Wor" in \<^verbatim>\<open>p[:n]\<close> with a nil error, the second returns 3 and "ld!" with a nil
  error, the third returns 0 and \<^verbatim>\<open>io.EOF\<close>.
\<close>

theorem ExampleReader_three_reads:
  "(NewReader (Some (Some (NewBasic ''Hello, World!''))) :: panic + (basic option, io_error) Reader) =
     Inr \<lparr>err = None, r = Some (Some ''Hello, World!'')\<rparr> \<and>
   reads (Reader_Read basic_Read) \<lparr>err = None, r = Some (Some ''Hello, World!'')\<rparr> (make 10) 3 =
     [(10, ''Hello, Wor'', None), (3, ''ld!'', None), (0, [], Some EOF)]"
  by (simp add: NewReader_def NewBasic_def make_def eval_nat_numeral
      Reader_Read_def Reader_Err_def basic_Read_def copy_def Let_def)

end
